theory Spec2Isabelle
  imports Complex_Main
begin

section \<open>Numbers\<close>

text \<open>
  The script computes with JavaScript numbers. The model keeps the three non-finite
  values of such a number (\<open>NaN\<close>, \<open>+Infinity\<close>, \<open>-Infinity\<close>) and takes the finite
  ones as exact reals: no rounding, no overflow, and a single zero (the sign of a zero
  is not tracked, a zero divisor counts as \<open>+0\<close>). The operators follow IEEE 754 on
  the non-finite values, so a division by zero yields \<open>NaN\<close> or an infinity, never an
  exception.
\<close>

datatype jsnum = Fin real | PInf | NInf | NaN

instantiation jsnum :: "{plus, minus, uminus, times, inverse, ord}"
begin

fun plus_jsnum :: "jsnum \<Rightarrow> jsnum \<Rightarrow> jsnum" where
  "plus_jsnum NaN _ = NaN"
| "plus_jsnum _ NaN = NaN"
| "plus_jsnum (Fin a) (Fin b) = Fin (a + b)"
| "plus_jsnum PInf NInf = NaN"
| "plus_jsnum NInf PInf = NaN"
| "plus_jsnum PInf _ = PInf"
| "plus_jsnum _ PInf = PInf"
| "plus_jsnum NInf _ = NInf"
| "plus_jsnum _ NInf = NInf"

fun uminus_jsnum :: "jsnum \<Rightarrow> jsnum" where
  "uminus_jsnum (Fin a) = Fin (- a)"
| "uminus_jsnum PInf = NInf"
| "uminus_jsnum NInf = PInf"
| "uminus_jsnum NaN = NaN"

definition minus_jsnum :: "jsnum \<Rightarrow> jsnum \<Rightarrow> jsnum" where
  "minus_jsnum a b = a + (- b)"

fun times_jsnum :: "jsnum \<Rightarrow> jsnum \<Rightarrow> jsnum" where
  "times_jsnum NaN _ = NaN"
| "times_jsnum _ NaN = NaN"
| "times_jsnum (Fin a) (Fin b) = Fin (a * b)"
| "times_jsnum (Fin a) PInf = (if a = 0 then NaN else if 0 < a then PInf else NInf)"
| "times_jsnum (Fin a) NInf = (if a = 0 then NaN else if 0 < a then NInf else PInf)"
| "times_jsnum PInf (Fin b) = (if b = 0 then NaN else if 0 < b then PInf else NInf)"
| "times_jsnum NInf (Fin b) = (if b = 0 then NaN else if 0 < b then NInf else PInf)"
| "times_jsnum PInf PInf = PInf"
| "times_jsnum PInf NInf = NInf"
| "times_jsnum NInf PInf = NInf"
| "times_jsnum NInf NInf = PInf"

fun divide_jsnum :: "jsnum \<Rightarrow> jsnum \<Rightarrow> jsnum" where
  "divide_jsnum NaN _ = NaN"
| "divide_jsnum _ NaN = NaN"
| "divide_jsnum (Fin a) (Fin b) =
     (if b = 0 then (if a = 0 then NaN else if 0 < a then PInf else NInf)
      else Fin (a / b))"
| "divide_jsnum (Fin a) _ = Fin 0"
| "divide_jsnum PInf (Fin b) = (if 0 \<le> b then PInf else NInf)"
| "divide_jsnum NInf (Fin b) = (if 0 \<le> b then NInf else PInf)"
| "divide_jsnum _ _ = NaN"

definition inverse_jsnum :: "jsnum \<Rightarrow> jsnum" where
  "inverse_jsnum a = divide (Fin 1) a"

fun less_jsnum :: "jsnum \<Rightarrow> jsnum \<Rightarrow> bool" where
  "less_jsnum NaN _ = False"
| "less_jsnum _ NaN = False"
| "less_jsnum (Fin a) (Fin b) = (a < b)"
| "less_jsnum (Fin a) PInf = True"
| "less_jsnum NInf (Fin b) = True"
| "less_jsnum NInf PInf = True"
| "less_jsnum _ _ = False"

fun less_eq_jsnum :: "jsnum \<Rightarrow> jsnum \<Rightarrow> bool" where
  "less_eq_jsnum NaN _ = False"
| "less_eq_jsnum _ NaN = False"
| "less_eq_jsnum (Fin a) (Fin b) = (a \<le> b)"
| "less_eq_jsnum NInf _ = True"
| "less_eq_jsnum _ PInf = True"
| "less_eq_jsnum _ _ = False"

instance ..

end

text \<open>\<open>a === b\<close> on numbers: \<open>NaN\<close> is equal to nothing, itself included.\<close>

definition strict_eq :: "jsnum \<Rightarrow> jsnum \<Rightarrow> bool" where
  "strict_eq a b = (a \<noteq> NaN \<and> b \<noteq> NaN \<and> a = b)"

text \<open>
  \<open>arr[i]\<close> where the read feeds arithmetic: past the end the array yields
  \<open>undefined\<close>, which every arithmetic operator turns into \<open>NaN\<close>.
\<close>

definition elem_at :: "jsnum list \<Rightarrow> nat \<Rightarrow> jsnum" where
  "elem_at arr i = (if i < length arr then arr ! i else NaN)"

text \<open>\<open>arr.map((value, index) => f(value, index))\<close>.\<close>

definition map_index :: "(jsnum \<Rightarrow> nat \<Rightarrow> jsnum) \<Rightarrow> jsnum list \<Rightarrow> jsnum list" where
  "map_index f arr = map (\<lambda>(value, index). f value index) (zip arr [0..<length arr])"

datatype error = AssertionError string

section \<open>Summation and allocation\<close>

text \<open>
  \<open>kahanSum\<close>: the running sum \<open>s\<close> starts at the first element, the compensation
  \<open>r\<close> at zero, and the loop runs over \<open>arr.slice(1)\<close>.
\<close>

fun kahanLoop :: "jsnum \<Rightarrow> jsnum \<Rightarrow> jsnum list \<Rightarrow> jsnum" where
  "kahanLoop s r [] = s"
| "kahanLoop s r (v # vs) =
     (let t1 = v - r;
          t2 = s + t1
      in kahanLoop t2 ((t2 - s) - t1) vs)"

definition kahanSum :: "jsnum list \<Rightarrow> jsnum" where
  "kahanSum arr = (if length arr = 0 then Fin 0 else kahanLoop (hd arr) (Fin 0) (tl arr))"

definition calculateAllocation :: "jsnum list \<Rightarrow> jsnum \<times> jsnum list" where
  "calculateAllocation arr = (let sum = kahanSum arr in (sum, map (\<lambda>v. v / sum) arr))"

section \<open>The rebalancer that may sell\<close>

definition rebalance :: "jsnum \<Rightarrow> jsnum list \<Rightarrow> jsnum list \<Rightarrow> jsnum \<Rightarrow> error + jsnum list" where
  "rebalance sumInitial allocInitial allocTargets sumToAdd =
     (if length allocInitial \<noteq> length allocTargets
      then Inl (AssertionError ''Arguments must be arrays with same length'')
      else Inr (map_index
             (\<lambda>value index. (value - elem_at allocInitial index) * sumInitial + (value * sumToAdd))
             allocTargets))"

section \<open>The rebalancer that never trades against the direction of the sum\<close>

text \<open>
  The latest version of \<open>rebalanceWithoutNegativeRebalancing\<close>, in the three steps of
  its body: the difference between the target division of the final sum and the initial
  sums (\<open>diffInitial\<close>), the same with the entries against the direction of
  \<open>sumToAdd\<close> put to zero (the source's \<open>sumFinalDividedDiffInitial\<close>), and the
  allocation of those differences applied to \<open>sumToAdd\<close>.
\<close>

definition diffInitial :: "jsnum list \<Rightarrow> jsnum list \<Rightarrow> jsnum \<Rightarrow> jsnum list" where
  "diffInitial sumsInitial allocTargets sumToAdd =
     (let (sumInitial, allocInitial) = calculateAllocation sumsInitial;
          sumFinal = sumInitial + sumToAdd;
          sumFinalDivided = map (\<lambda>a. a * sumFinal) allocTargets
      in map_index (\<lambda>s i. s - elem_at allocInitial i * sumInitial) sumFinalDivided)"

definition sumFinalDividedDiffInitial :: "jsnum list \<Rightarrow> jsnum list \<Rightarrow> jsnum \<Rightarrow> jsnum list" where
  "sumFinalDividedDiffInitial sumsInitial allocTargets sumToAdd =
     map (if sumToAdd > Fin 0
          then (\<lambda>s. if s < Fin 0 then Fin 0 else s)
          else (\<lambda>s. if s > Fin 0 then Fin 0 else s))
       (diffInitial sumsInitial allocTargets sumToAdd)"

definition rebalanceWithoutNegativeRebalancing ::
    "jsnum list \<Rightarrow> jsnum list \<Rightarrow> jsnum \<Rightarrow> error + jsnum list" where
  "rebalanceWithoutNegativeRebalancing sumsInitial allocTargets sumToAdd =
     (if length sumsInitial \<noteq> length allocTargets
      then Inl (AssertionError ''Arguments must be arrays with same length'')
      else if strict_eq sumToAdd (Fin 0) then Inr (replicate (length sumsInitial) (Fin 0))
      else
        (let (_, diffAllocation) =
               calculateAllocation (sumFinalDividedDiffInitial sumsInitial allocTargets sumToAdd)
         in Inr (map (\<lambda>d. d * sumToAdd) diffAllocation)))"

section \<open>The earlier rebalancer with a redistribution loop\<close>

text \<open>
  The version of \<open>rebalanceWithoutNegativeRebalancing\<close> that takes \<open>sumInitial\<close> and
  \<open>allocInitial\<close>. It has no assertion on the lengths. The \<open>Set\<close> of indexes is a
  list without duplicates in insertion order, which is the order a \<open>for ... of\<close> visits.
\<close>

definition set_add :: "nat \<Rightarrow> nat list \<Rightarrow> nat list" where
  "set_add i s = (if i \<in> set s then s else s @ [i])"

definition set_delete :: "nat \<Rightarrow> nat list \<Rightarrow> nat list" where
  "set_delete i s = removeAll i s"

text \<open>
  The body of the \<open>forEach\<close> over \<open>allocTargets\<close>, on the variables
  \<open>(sumNegativeRebalacings, indexesRedistribution, sumDivided)\<close>. The index is below
  the length of \<open>sumDivided\<close>, so the write is a list update.
\<close>

definition subdivide ::
    "jsnum \<Rightarrow> jsnum list \<Rightarrow> jsnum \<Rightarrow> jsnum \<times> nat
      \<Rightarrow> jsnum \<times> nat list \<times> jsnum list \<Rightarrow> jsnum \<times> nat list \<times> jsnum list" where
  "subdivide sumInitial allocInitial sumToAdd =
     (\<lambda>(value, index) (sumNegativeRebalacings, indexesRedistribution, sumDivided).
        let sumToAddSuddivision =
              ((value - elem_at allocInitial index) * sumInitial) + (value * sumToAdd)
        in if sumToAddSuddivision \<le> Fin 0
           then (sumNegativeRebalacings + sumToAddSuddivision, indexesRedistribution,
                 sumDivided[index := Fin 0])
           else (sumNegativeRebalacings, set_add index indexesRedistribution,
                 sumDivided[index := sumToAddSuddivision]))"

record redistribution =
  sumDivided :: "jsnum list"
  reimainingToDistribute :: jsnum
  indexesRedistribution :: "nat list"

text \<open>
  The body of the \<open>for\<close> loop inside the \<open>while\<close>, up to the test for \<open>break\<close>.
  The index comes from the set, so it is below the length of \<open>sumDivided\<close> and the
  write is a list update.
\<close>

definition redistributeStep :: "jsnum \<Rightarrow> nat \<Rightarrow> redistribution \<Rightarrow> redistribution" where
  "redistributeStep remainingSingleRedistributedRebalancing indexToRedistribute st =
     (let distributeEffect =
            elem_at (sumDivided st) indexToRedistribute + remainingSingleRedistributedRebalancing;
          st1 = (if distributeEffect \<ge> Fin 0
                 then st\<lparr>sumDivided := (sumDivided st)[indexToRedistribute := distributeEffect],
                         reimainingToDistribute :=
                           reimainingToDistribute st - remainingSingleRedistributedRebalancing\<rparr>
                 else st\<lparr>sumDivided := (sumDivided st)[indexToRedistribute := Fin 0],
                         reimainingToDistribute :=
                           reimainingToDistribute st
                             - (remainingSingleRedistributedRebalancing - distributeEffect)\<rparr>)
      in if elem_at (sumDivided st1) indexToRedistribute \<le> Fin 0
         then st1\<lparr>indexesRedistribution :=
                     set_delete indexToRedistribute (indexesRedistribution st1)\<rparr>
         else st1)"

text \<open>
  One run of the \<open>for\<close> loop: the indexes to visit are those in the set when the loop
  starts (the body deletes only the index it is visiting), and \<open>break\<close> ends the run.
\<close>

fun redistribute :: "jsnum \<Rightarrow> nat list \<Rightarrow> redistribution \<Rightarrow> redistribution" where
  "redistribute remainingSingleRedistributedRebalancing [] st = st"
| "redistribute remainingSingleRedistributedRebalancing (indexToRedistribute # rest) st =
     (let st' = redistributeStep remainingSingleRedistributedRebalancing indexToRedistribute st
      in if reimainingToDistribute st' \<ge> Fin 0 then st'
         else redistribute remainingSingleRedistributedRebalancing rest st')"

text \<open>
  The \<open>while\<close> loop; \<open>None\<close> stands for a loop that never ends. The share
  \<open>remaining / size\<close> and the subtractions are exact here, so \<open>size\<close> shares make
  up the remainder. The script computes them in doubles, where they are rounded: what
  is proved of this loop is a fact about exact arithmetic, and its ending is not a
  property of the script (see the section on the loop below).
\<close>

partial_function (option) redistributionLoop :: "redistribution \<Rightarrow> redistribution option" where
  "redistributionLoop st =
     (if reimainingToDistribute st < Fin 0 \<and> length (indexesRedistribution st) > 0
      then redistributionLoop
             (redistribute
                (reimainingToDistribute st / Fin (real (length (indexesRedistribution st))))
                (indexesRedistribution st) st)
      else Some st)"

declare redistributionLoop.simps [code]

definition rebalanceWithoutNegativeRebalancingIterative ::
    "jsnum \<Rightarrow> jsnum list \<Rightarrow> jsnum list \<Rightarrow> jsnum \<Rightarrow> jsnum list option" where
  "rebalanceWithoutNegativeRebalancingIterative sumInitial allocInitial allocTargets sumToAdd =
     (let (sumNegativeRebalacings, indexes, divided) =
            fold (subdivide sumInitial allocInitial sumToAdd)
              (zip allocTargets [0..<length allocTargets])
              (Fin 0, [], replicate (length allocTargets) NaN)
      in if sumNegativeRebalacings < Fin 0
         then map_option sumDivided
                (redistributionLoop
                   \<lparr>sumDivided = divided, reimainingToDistribute = sumNegativeRebalacings,
                    indexesRedistribution = indexes\<rparr>)
         else Some divided)"

section \<open>Exact values on finite inputs\<close>

text \<open>
  For finite inputs the entries of \<open>diffInitial\<close> and the effect of the clamp are
  these real numbers; lemmas \<open>diffInitial_Fin\<close> and \<open>clamped_Fin\<close> below derive
  them from the code.
\<close>

definition diff_at :: "real list \<Rightarrow> real list \<Rightarrow> real \<Rightarrow> nat \<Rightarrow> real" where
  "diff_at ms ts d i = ts ! i * (sum_list ms + d) - ms ! i"

definition clamp_to :: "real \<Rightarrow> real \<Rightarrow> real" where
  "clamp_to d x = (if 0 < d then (if x < 0 then 0 else x) else (if 0 < x then 0 else x))"

text \<open>
  What the loop keeps true of its set of indexes: no index twice, every index inside
  \<open>sumDivided\<close>.
\<close>

definition indexes_ok :: "redistribution \<Rightarrow> bool" where
  "indexes_ok st \<longleftrightarrow> distinct (indexesRedistribution st)
     \<and> (\<forall>i\<in>set (indexesRedistribution st). i < length (sumDivided st))"

text \<open>
  What the loop keeps true of finite values when \<open>d\<close> is to be shared out: the
  entries \<open>xs\<close> are not negative, the remainder \<open>r\<close> is not positive, together they
  make \<open>d\<close>, and an entry outside the set of indexes is zero.
\<close>

definition balanced :: "real \<Rightarrow> real list \<Rightarrow> real \<Rightarrow> nat list \<Rightarrow> bool" where
  "balanced d xs r idx \<longleftrightarrow>
     (\<forall>x\<in>set xs. 0 \<le> x) \<and> r \<le> 0 \<and> sum_list xs + r = d
     \<and> distinct idx \<and> (\<forall>i\<in>set idx. i < length xs)
     \<and> (\<forall>i<length xs. i \<notin> set idx \<longrightarrow> xs ! i = 0)"

section \<open>Facts about the number model\<close>

lemma Fin_minus [simp]: "Fin a - Fin b = Fin (a - b)"
  by (simp add: minus_jsnum_def)

lemma kahanLoop_Fin: "kahanLoop (Fin s) (Fin 0) (map Fin xs) = Fin (s + sum_list xs)"
  by (induction xs arbitrary: s) (simp_all add: Let_def algebra_simps)

lemma kahanSum_Fin: "kahanSum (map Fin xs) = Fin (sum_list xs)"
  by (cases xs) (simp_all add: kahanSum_def kahanLoop_Fin)

lemma map_index_nth: "map_index f arr = map (\<lambda>i. f (arr ! i) i) [0..<length arr]"
  by (rule nth_equalityI) (simp_all add: map_index_def)

lemma elem_at_Fin [simp]: "i < length xs \<Longrightarrow> elem_at (map Fin xs) i = Fin (xs ! i)"
  by (simp add: elem_at_def)

lemma rebalance_Fin:
  assumes "length cs = length ts"
  shows "rebalance (Fin T) (map Fin cs) (map Fin ts) (Fin d) =
           Inr (map Fin (map (\<lambda>i. (ts ! i - cs ! i) * T + ts ! i * d) [0..<length ts]))"
  using assms by (simp add: rebalance_def map_index_nth)

lemma rebalance_total:
  fixes T d :: real
  assumes "length cs = length ts"
  shows "sum_list (map (\<lambda>i. (ts ! i - cs ! i) * T + ts ! i * d) [0..<length ts])
         = (sum_list ts - sum_list cs) * T + sum_list ts * d"
proof -
  have "sum_list (map (\<lambda>i. (ts ! i - cs ! i) * T + ts ! i * d) [0..<length ts])
        = (\<Sum>i = 0..<length ts. (ts ! i - cs ! i) * T + ts ! i * d)"
    by (simp add: interv_sum_list_conv_sum_set_nat)
  also have "\<dots> = ((\<Sum>i = 0..<length ts. ts ! i) - (\<Sum>i = 0..<length ts. cs ! i)) * T
                   + (\<Sum>i = 0..<length ts. ts ! i) * d"
    by (simp add: sum.distrib sum_subtractf sum_distrib_right left_diff_distrib)
  also have "\<dots> = (sum_list ts - sum_list cs) * T + sum_list ts * d"
    using assms by (simp add: sum_list_sum_nth)
  finally show ?thesis .
qed

section \<open>The rebalancer that may sell: its sum and its effect\<close>

text \<open>
  Claim C4. For allocations of equal length that each sum to 1, and any finite
  \<open>sumInitial\<close> and \<open>sumToAdd\<close>, \<open>rebalance\<close> returns a vector of finite numbers whose
  sum is \<open>sumToAdd\<close>; \<open>kahanSum\<close> of the result is \<open>sumToAdd\<close> as well.
\<close>

theorem rebalance_sums_to_delta:
  assumes "length cs = length ts" and "sum_list cs = 1" and "sum_list ts = 1"
  shows "\<exists>adj. rebalance (Fin T) (map Fin cs) (map Fin ts) (Fin d) = Inr (map Fin adj)
               \<and> length adj = length ts \<and> sum_list adj = d
               \<and> kahanSum (map Fin adj) = Fin d"
proof -
  let ?adj = "map (\<lambda>i. (ts ! i - cs ! i) * T + ts ! i * d) [0..<length ts]"
  have total: "sum_list ?adj = d"
    using assms by (simp add: rebalance_total)
  have "kahanSum (map Fin ?adj) = Fin d"
    by (simp only: kahanSum_Fin total)
  moreover have "rebalance (Fin T) (map Fin cs) (map Fin ts) (Fin d) = Inr (map Fin ?adj)"
    using assms(1) by (rule rebalance_Fin)
  moreover have "length ?adj = length ts" by simp
  ultimately show ?thesis using total by blast
qed

theorem rebalance_sums_to_delta_witness:
  "length [6/17, 5/17, 6/17 :: real] = length [3/10, 1/2, 1/5 :: real]
   \<and> sum_list [6/17, 5/17, 6/17 :: real] = 1 \<and> sum_list [3/10, 1/2, 1/5 :: real] = 1
   \<and> (\<exists>adj. rebalance (Fin 17000) (map Fin [6/17, 5/17, 6/17]) (map Fin [3/10, 1/2, 1/5])
                 (Fin 10000) = Inr (map Fin adj)
              \<and> length adj = length [3/10, 1/2, 1/5 :: real] \<and> sum_list adj = 10000
              \<and> kahanSum (map Fin adj) = Fin 10000)"
proof -
  have h1: "length [6/17, 5/17, 6/17 :: real] = length [3/10, 1/2, 1/5 :: real]" by simp
  have h2: "sum_list [6/17, 5/17, 6/17 :: real] = 1" by simp
  have h3: "sum_list [3/10, 1/2, 1/5 :: real] = 1" by simp
  from rebalance_sums_to_delta [OF h1 h2 h3, of 17000 10000] h1 h2 h3 show ?thesis by blast
qed

text \<open>
  Claim C3. When the initial allocation is each asset's sum divided by \<open>sumInitial\<close>
  and the final sum \<open>sumInitial + sumToAdd\<close> is positive, adding the returned
  adjustment to the asset's sum and dividing by the final sum gives the target
  allocation at every index.
\<close>

theorem rebalance_reaches_target:
  assumes "length cs = length ts" and "length ms = length ts"
    and "sum_list cs = 1" and "sum_list ts = 1"
    and "\<forall>i<length ts. Fin (cs ! i) = Fin (ms ! i) / Fin T"
    and "0 < T + d"
  shows "\<exists>adj. rebalance (Fin T) (map Fin cs) (map Fin ts) (Fin d) = Inr adj
               \<and> length adj = length ts
               \<and> (\<forall>i<length ts. (Fin (ms ! i) + adj ! i) / (Fin T + Fin d) = Fin (ts ! i))"
proof -
  let ?adj = "map (\<lambda>i. (ts ! i - cs ! i) * T + ts ! i * d) [0..<length ts]"
  have "(Fin (ms ! i) + map Fin ?adj ! i) / (Fin T + Fin d) = Fin (ts ! i)" if i: "i < length ts" for i
  proof -
    from assms(5) i have eq: "Fin (cs ! i) = Fin (ms ! i) / Fin T" by simp
    have T: "T \<noteq> 0"
    proof
      assume "T = 0"
      with eq show False by (simp split: if_splits)
    qed
    with eq have c: "cs ! i = ms ! i / T" by simp
    have "ms ! i + ((ts ! i - cs ! i) * T + ts ! i * d) = ts ! i * (T + d)"
      using T by (simp add: c algebra_simps)
    then show ?thesis using i assms(6) by simp
  qed
  moreover have "rebalance (Fin T) (map Fin cs) (map Fin ts) (Fin d) = Inr (map Fin ?adj)"
    using assms(1) by (rule rebalance_Fin)
  moreover have "length (map Fin ?adj) = length ts" by simp
  ultimately show ?thesis by blast
qed

theorem rebalance_reaches_target_witness:
  "length [6/17, 5/17, 6/17 :: real] = length [3/10, 1/2, 1/5 :: real]
   \<and> length [6000, 5000, 6000 :: real] = length [3/10, 1/2, 1/5 :: real]
   \<and> sum_list [6/17, 5/17, 6/17 :: real] = 1 \<and> sum_list [3/10, 1/2, 1/5 :: real] = 1
   \<and> Fin (6/17) = Fin 6000 / Fin 17000 \<and> Fin (5/17) = Fin 5000 / Fin 17000
   \<and> (0::real) < 17000 + 10000
   \<and> (\<exists>adj. rebalance (Fin 17000) (map Fin [6/17, 5/17, 6/17]) (map Fin [3/10, 1/2, 1/5])
                 (Fin 10000) = Inr adj
              \<and> length adj = length [3/10, 1/2, 1/5 :: real]
              \<and> (\<forall>i<length [3/10, 1/2, 1/5 :: real].
                    (Fin ([6000, 5000, 6000] ! i) + adj ! i) / (Fin 17000 + Fin 10000)
                    = Fin ([3/10, 1/2, 1/5] ! i)))"
proof -
  have h1: "length [6/17, 5/17, 6/17 :: real] = length [3/10, 1/2, 1/5 :: real]" by simp
  have h2: "length [6000, 5000, 6000 :: real] = length [3/10, 1/2, 1/5 :: real]" by simp
  have h3: "sum_list [6/17, 5/17, 6/17 :: real] = 1" by simp
  have h4: "sum_list [3/10, 1/2, 1/5 :: real] = 1" by simp
  have h5: "\<forall>i<length [3/10, 1/2, 1/5 :: real].
         Fin ([6/17, 5/17, 6/17] ! i) = Fin ([6000, 5000, 6000] ! i) / Fin 17000"
    by (simp add: All_less_Suc)
  have h6: "(0::real) < 17000 + 10000" by simp
  have h7: "Fin (6/17) = Fin 6000 / Fin 17000 \<and> Fin (5/17) = Fin 5000 / Fin 17000" by simp
  from rebalance_reaches_target [OF h1 h2 h3 h4 h5 h6] h1 h2 h3 h4 h6 h7 show ?thesis by blast
qed

lemma calculateAllocation_Fin_all:
  "calculateAllocation (map Fin xs) =
     (Fin (sum_list xs),
      map (\<lambda>x. if sum_list xs \<noteq> 0 then Fin (x / sum_list xs)
               else if x = 0 then NaN else if 0 < x then PInf else NInf) xs)"
  by (simp add: calculateAllocation_def kahanSum_Fin Let_def)

lemma calculateAllocation_Fin:
  "sum_list xs \<noteq> 0 \<Longrightarrow>
   calculateAllocation (map Fin xs) = (Fin (sum_list xs), map (\<lambda>x. Fin (x / sum_list xs)) xs)"
  by (simp add: calculateAllocation_Fin_all)

lemma elem_at_map: "i < length xs \<Longrightarrow> elem_at (map f xs) i = f (xs ! i)"
  by (simp add: elem_at_def)

lemma diffInitial_Fin:
  assumes "length ms = length ts" and "sum_list ms \<noteq> 0"
  shows "diffInitial (map Fin ms) (map Fin ts) (Fin d) =
           map (\<lambda>i. Fin (diff_at ms ts d i)) [0..<length ts]"
  using assms
  by (simp add: diffInitial_def calculateAllocation_Fin map_index_nth elem_at_map diff_at_def)

lemma clamped_Fin:
  assumes "length ms = length ts" and "sum_list ms \<noteq> 0"
  shows "sumFinalDividedDiffInitial (map Fin ms) (map Fin ts) (Fin d) =
           map Fin (map (\<lambda>i. clamp_to d (diff_at ms ts d i)) [0..<length ts])"
  using assms
  by (simp add: sumFinalDividedDiffInitial_def diffInitial_Fin clamp_to_def)

lemma twopass_Fin:
  assumes "length ms = length ts" and "sum_list ms \<noteq> 0" and "d \<noteq> 0"
    and "C = sum_list (map (\<lambda>i. clamp_to d (diff_at ms ts d i)) [0..<length ts])"
    and "C \<noteq> 0"
  shows "rebalanceWithoutNegativeRebalancing (map Fin ms) (map Fin ts) (Fin d) =
           Inr (map (\<lambda>i. Fin (clamp_to d (diff_at ms ts d i) / C * d)) [0..<length ts])"
proof -
  let ?cl = "map (\<lambda>i. clamp_to d (diff_at ms ts d i)) [0..<length ts]"
  have alloc: "calculateAllocation (map Fin ?cl) = (Fin C, map (\<lambda>x. Fin (x / C)) ?cl)"
    using assms(4,5) calculateAllocation_Fin [of ?cl] by simp
  have "rebalanceWithoutNegativeRebalancing (map Fin ms) (map Fin ts) (Fin d) =
          (let (_, diffAllocation) = calculateAllocation (map Fin ?cl)
           in Inr (map (\<lambda>x. x * Fin d) diffAllocation))"
    using assms(1,2,3)
    by (simp add: rebalanceWithoutNegativeRebalancing_def strict_eq_def clamped_Fin
          del: map_map)
  also have "\<dots> = Inr (map (\<lambda>i. Fin (clamp_to d (diff_at ms ts d i) / C * d)) [0..<length ts])"
    by (simp only: alloc) (simp add: comp_def)
  finally show ?thesis .
qed

lemma diff_total:
  fixes d :: real
  assumes "length ms = length ts" and "sum_list ts = 1"
  shows "sum_list (map (diff_at ms ts d) [0..<length ts]) = d"
proof -
  have "sum_list (map (diff_at ms ts d) [0..<length ts])
        = (\<Sum>i = 0..<length ts. ts ! i * (sum_list ms + d) - ms ! i)"
    by (simp add: interv_sum_list_conv_sum_set_nat diff_at_def)
  also have "\<dots> = (\<Sum>i = 0..<length ts. ts ! i) * (sum_list ms + d)
                   - (\<Sum>i = 0..<length ts. ms ! i)"
    by (simp add: sum_subtractf sum_distrib_right)
  also have "\<dots> = sum_list ts * (sum_list ms + d) - sum_list ms"
    using assms(1) by (simp add: sum_list_sum_nth)
  finally show ?thesis using assms(2) by simp
qed

lemma clamp_total_pos:
  fixes d :: real
  assumes "0 < d"
  shows "sum_list (map f xs) \<le> sum_list (map (\<lambda>i. clamp_to d (f i)) xs)"
  using assms by (intro sum_list_mono) (simp add: clamp_to_def)

lemma clamp_total_neg:
  fixes d :: real
  assumes "d < 0"
  shows "sum_list (map (\<lambda>i. clamp_to d (f i)) xs) \<le> sum_list (map f xs)"
  using assms by (intro sum_list_mono) (simp add: clamp_to_def)

lemma clamped_total_sign:
  fixes d :: real
  assumes "length ms = length ts" and "sum_list ts = 1"
    and "C = sum_list (map (\<lambda>i. clamp_to d (diff_at ms ts d i)) [0..<length ts])"
  shows "(0 < d \<longrightarrow> 0 < C) \<and> (d < 0 \<longrightarrow> C < 0)"
proof -
  have total: "sum_list (map (diff_at ms ts d) [0..<length ts]) = d"
    using assms(1,2) by (rule diff_total)
  show ?thesis
    using clamp_total_pos [of d "diff_at ms ts d" "[0..<length ts]"]
      clamp_total_neg [of d "diff_at ms ts d" "[0..<length ts]"]
    unfolding total assms(3) by auto
qed

lemma twopass_zero:
  "length sumsInitial = length allocTargets \<Longrightarrow>
   rebalanceWithoutNegativeRebalancing sumsInitial allocTargets (Fin 0)
     = Inr (replicate (length sumsInitial) (Fin 0))"
  by (simp add: rebalanceWithoutNegativeRebalancing_def strict_eq_def)

lemma share_pos: "0 \<le> c \<Longrightarrow> 0 < C \<Longrightarrow> 0 < d \<Longrightarrow> 0 \<le> c / C * (d::real)"
  by simp

lemma share_neg:
  fixes c C d :: real
  assumes "c \<le> 0" and "C < 0" and "d < 0"
  shows "c / C * d \<le> 0"
proof -
  have "0 \<le> c / C" using assms(1,2) by (rule divide_nonpos_neg)
  then show ?thesis using assms(3) by (intro mult_nonneg_nonpos) simp_all
qed

lemma twopass_shares:
  assumes "length ms = length ts" and "sum_list ms \<noteq> 0" and "sum_list ts = 1" and "d \<noteq> 0"
  shows "\<exists>adj. rebalanceWithoutNegativeRebalancing (map Fin ms) (map Fin ts) (Fin d)
                 = Inr (map Fin adj)
           \<and> length adj = length ts \<and> sum_list adj = d
           \<and> (0 < d \<longrightarrow> (\<forall>x\<in>set adj. 0 \<le> x)) \<and> (d < 0 \<longrightarrow> (\<forall>x\<in>set adj. x \<le> 0))"
proof -
  define C where "C = sum_list (map (\<lambda>i. clamp_to d (diff_at ms ts d i)) [0..<length ts])"
  have sign: "(0 < d \<longrightarrow> 0 < C) \<and> (d < 0 \<longrightarrow> C < 0)"
    using assms(1,3) C_def by (rule clamped_total_sign)
  with assms(4) have C: "C \<noteq> 0" by auto
  let ?adj = "map (\<lambda>i. clamp_to d (diff_at ms ts d i) / C * d) [0..<length ts]"
  have "rebalanceWithoutNegativeRebalancing (map Fin ms) (map Fin ts) (Fin d)
          = Inr (map (\<lambda>i. Fin (clamp_to d (diff_at ms ts d i) / C * d)) [0..<length ts])"
    using assms(1,2,4) C_def C by (rule twopass_Fin)
  then have res: "rebalanceWithoutNegativeRebalancing (map Fin ms) (map Fin ts) (Fin d)
          = Inr (map Fin ?adj)"
    by (simp add: comp_def)
  have "sum_list ?adj = (\<Sum>i = 0..<length ts. clamp_to d (diff_at ms ts d i) / C * d)"
    by (simp add: interv_sum_list_conv_sum_set_nat)
  also have "\<dots> = (\<Sum>i = 0..<length ts. clamp_to d (diff_at ms ts d i)) / C * d"
    by (simp only: sum_distrib_right sum_divide_distrib)
  also have "(\<Sum>i = 0..<length ts. clamp_to d (diff_at ms ts d i)) = C"
    unfolding C_def by (simp add: interv_sum_list_conv_sum_set_nat)
  finally have total: "sum_list ?adj = d" using C by simp
  have pos: "\<forall>x\<in>set ?adj. 0 \<le> x" if "0 < d"
  proof -
    from that sign have "0 < C" by simp
    with that have "0 \<le> clamp_to d x / C * d" for x :: real
      by (intro share_pos) (simp_all add: clamp_to_def)
    then show ?thesis by auto
  qed
  have neg: "\<forall>x\<in>set ?adj. x \<le> 0" if "d < 0"
  proof -
    from that sign have "C < 0" by simp
    with that have "clamp_to d x / C * d \<le> 0" for x :: real
      by (intro share_neg) (simp_all add: clamp_to_def)
    then show ?thesis by auto
  qed
  have "length ?adj = length ts" by simp
  with res total pos neg show ?thesis by blast
qed

section \<open>The constrained rebalancer on valid inputs\<close>

text \<open>
  Claim C1. For sums and targets of equal length, non-negative sums with a positive
  total and targets in \<open>[0, 1]\<close> that sum to 1, \<open>rebalanceWithoutNegativeRebalancing\<close>
  returns a vector: with \<open>sumToAdd > 0\<close> every entry is \<open>\<ge> 0\<close>, with \<open>sumToAdd < 0\<close>
  every entry is \<open>\<le> 0\<close>, and with \<open>sumToAdd = 0\<close> it is the vector of zeros. That some
  difference has the sign of \<open>sumToAdd\<close> follows from the other hypotheses
  (\<open>clamped_total_sign\<close>), so it is not assumed.
\<close>

theorem constrained_sign:
  assumes "length ms = length ts"
    and "\<forall>m\<in>set ms. 0 \<le> m" and "0 < sum_list ms"
    and "\<forall>t\<in>set ts. 0 \<le> t \<and> t \<le> 1" and "sum_list ts = 1"
  shows "\<exists>adj. rebalanceWithoutNegativeRebalancing (map Fin ms) (map Fin ts) (Fin d) = Inr adj
           \<and> length adj = length ts
           \<and> (Fin d > Fin 0 \<longrightarrow> (\<forall>x\<in>set adj. x \<ge> Fin 0))
           \<and> (Fin d < Fin 0 \<longrightarrow> (\<forall>x\<in>set adj. x \<le> Fin 0))
           \<and> (d = 0 \<longrightarrow> adj = replicate (length ts) (Fin 0))"
proof (cases "d = 0")
  case True
  then show ?thesis using assms(1) by (simp add: twopass_zero)
next
  case False
  have T: "sum_list ms \<noteq> 0" using assms(3) by simp
  from twopass_shares [OF assms(1) T assms(5) False]
  obtain a where a:
    "rebalanceWithoutNegativeRebalancing (map Fin ms) (map Fin ts) (Fin d) = Inr (map Fin a)"
    "length a = length ts"
    "0 < d \<longrightarrow> (\<forall>x\<in>set a. 0 \<le> x)" "d < 0 \<longrightarrow> (\<forall>x\<in>set a. x \<le> 0)"
    by blast
  have "Fin d > Fin 0 \<longrightarrow> (\<forall>x\<in>set (map Fin a). x \<ge> Fin 0)" using a(3) by auto
  moreover have "Fin d < Fin 0 \<longrightarrow> (\<forall>x\<in>set (map Fin a). x \<le> Fin 0)" using a(4) by auto
  moreover have "length (map Fin a) = length ts" using a(2) by simp
  ultimately show ?thesis using a(1) False by blast
qed

theorem constrained_sign_witness:
  "(\<exists>adj. rebalanceWithoutNegativeRebalancing (map Fin [6000, 5000, 6000])
             (map Fin [3/10, 1/2, 1/5]) (Fin 10000) = Inr adj
          \<and> length adj = 3 \<and> (\<forall>x\<in>set adj. x \<ge> Fin 0))
   \<and> (\<exists>adj. rebalanceWithoutNegativeRebalancing (map Fin [6000, 5000, 6000])
             (map Fin [3/10, 1/2, 1/5]) (Fin (- 1000)) = Inr adj
          \<and> length adj = 3 \<and> (\<forall>x\<in>set adj. x \<le> Fin 0))
   \<and> (\<exists>adj. rebalanceWithoutNegativeRebalancing (map Fin [6000, 5000, 6000])
             (map Fin [3/10, 1/2, 1/5]) (Fin 0) = Inr adj
          \<and> adj = [Fin 0, Fin 0, Fin 0])"
  using constrained_sign [of "[6000, 5000, 6000]" "[3/10, 1/2, 1/5]" 10000]
    constrained_sign [of "[6000, 5000, 6000]" "[3/10, 1/2, 1/5]" "- 1000"]
    constrained_sign [of "[6000, 5000, 6000]" "[3/10, 1/2, 1/5]" 0]
  by (simp add: numeral_3_eq_3)

text \<open>
  Claim C2. On the same inputs (the targets need only sum to 1) the entries of the
  returned vector are finite and sum to \<open>sumToAdd\<close>; \<open>kahanSum\<close> of the result is
  \<open>sumToAdd\<close> as well.
\<close>

theorem constrained_sum:
  assumes "length ms = length ts"
    and "\<forall>m\<in>set ms. 0 \<le> m" and "0 < sum_list ms"
    and "sum_list ts = 1"
  shows "\<exists>adj. rebalanceWithoutNegativeRebalancing (map Fin ms) (map Fin ts) (Fin d)
                 = Inr (map Fin adj)
           \<and> length adj = length ts \<and> sum_list adj = d \<and> kahanSum (map Fin adj) = Fin d"
proof (cases "d = 0")
  case True
  let ?z = "replicate (length ts) (0::real)"
  have z: "sum_list ?z = 0" by (simp add: sum_list_replicate)
  have "kahanSum (map Fin ?z) = Fin 0"
    by (simp only: kahanSum_Fin z)
  moreover have "rebalanceWithoutNegativeRebalancing (map Fin ms) (map Fin ts) (Fin d)
                   = Inr (map Fin ?z)"
    using True assms(1) by (simp add: twopass_zero)
  moreover have "length ?z = length ts" by simp
  ultimately show ?thesis using z True by blast
next
  case False
  have T: "sum_list ms \<noteq> 0" using assms(3) by simp
  from twopass_shares [OF assms(1) T assms(4) False]
  obtain a where a:
    "rebalanceWithoutNegativeRebalancing (map Fin ms) (map Fin ts) (Fin d) = Inr (map Fin a)"
    "length a = length ts" "sum_list a = d"
    by blast
  have "kahanSum (map Fin a) = Fin d"
    by (simp only: kahanSum_Fin a(3))
  with a show ?thesis by blast
qed

theorem constrained_sum_witness:
  "\<exists>adj. rebalanceWithoutNegativeRebalancing (map Fin [6000, 5000, 6000])
            (map Fin [3/10, 1/2, 1/5]) (Fin 10000) = Inr (map Fin adj)
         \<and> length adj = 3 \<and> sum_list adj = 10000 \<and> kahanSum (map Fin adj) = Fin 10000"
  using constrained_sum [of "[6000, 5000, 6000]" "[3/10, 1/2, 1/5]" 10000]
  by (simp add: numeral_3_eq_3)

text \<open>
  Claim C7. With \<open>sumToAdd\<close> equal to minus the total of the sums, the adjustment of
  every asset is minus its sum.
\<close>

theorem full_liquidation:
  assumes "length ms = length ts"
    and "\<forall>m\<in>set ms. 0 \<le> m" and "0 < sum_list ms"
    and "\<forall>t\<in>set ts. 0 \<le> t \<and> t \<le> 1" and "sum_list ts = 1"
  shows "rebalanceWithoutNegativeRebalancing (map Fin ms) (map Fin ts) (Fin (- sum_list ms))
           = Inr (map (\<lambda>m. Fin (- m)) ms)"
proof -
  let ?T = "sum_list ms"
  let ?d = "- ?T"
  have d: "?d < 0" "?d \<noteq> 0" using assms(3) by simp_all
  have cl: "clamp_to ?d (diff_at ms ts ?d i) = - (ms ! i)" if "i < length ts" for i
  proof -
    have "0 \<le> ms ! i" using that assms(1,2) by simp
    then show ?thesis using d by (simp add: clamp_to_def diff_at_def)
  qed
  have "sum_list (map (\<lambda>i. clamp_to ?d (diff_at ms ts ?d i)) [0..<length ts])
          = sum_list (map (\<lambda>i. - (ms ! i)) [0..<length ts])"
    by (rule arg_cong [where f = sum_list], rule map_cong) (simp_all add: cl)
  also have "\<dots> = - (\<Sum>i = 0..<length ms. ms ! i)"
    using assms(1) by (simp add: interv_sum_list_conv_sum_set_nat sum_negf)
  also have "\<dots> = ?d" by (simp add: sum_list_sum_nth)
  finally have C: "?d = sum_list (map (\<lambda>i. clamp_to ?d (diff_at ms ts ?d i)) [0..<length ts])"
    by simp
  have "rebalanceWithoutNegativeRebalancing (map Fin ms) (map Fin ts) (Fin ?d)
          = Inr (map (\<lambda>i. Fin (clamp_to ?d (diff_at ms ts ?d i) / ?d * ?d)) [0..<length ts])"
    using assms(1,3) d(2) C by (intro twopass_Fin) simp_all
  also have "map (\<lambda>i. Fin (clamp_to ?d (diff_at ms ts ?d i) / ?d * ?d)) [0..<length ts]
               = map (\<lambda>i. Fin (- (ms ! i))) [0..<length ms]"
    unfolding assms(1) using d(2) by (intro map_cong refl) (simp add: cl)
  also have "\<dots> = map (\<lambda>m. Fin (- m)) ms"
    by (rule nth_equalityI) simp_all
  finally show ?thesis .
qed

theorem full_liquidation_witness:
  "rebalanceWithoutNegativeRebalancing (map Fin [6000, 5000, 6000]) (map Fin [3/10, 1/2, 1/5])
     (Fin (- sum_list [6000, 5000, 6000]))
   = Inr (map (\<lambda>m. Fin (- m)) [6000, 5000, 6000])"
  by (rule full_liquidation) simp_all

text \<open>
  Claim C10. With \<open>sumToAdd \<noteq> 0\<close>, an asset whose entry of \<open>diffInitial\<close> has the sign
  strictly opposite to \<open>sumToAdd\<close> gets the adjustment 0.
\<close>

theorem clamped_assets_get_zero:
  assumes "length ms = length ts"
    and "\<forall>m\<in>set ms. 0 \<le> m" and "0 < sum_list ms"
    and "sum_list ts = 1" and "d \<noteq> 0"
  shows "\<exists>adj. rebalanceWithoutNegativeRebalancing (map Fin ms) (map Fin ts) (Fin d) = Inr adj
           \<and> length adj = length ts
           \<and> (\<forall>i<length ts.
                 (Fin d > Fin 0 \<and> diffInitial (map Fin ms) (map Fin ts) (Fin d) ! i < Fin 0)
                 \<or> (Fin d < Fin 0 \<and> diffInitial (map Fin ms) (map Fin ts) (Fin d) ! i > Fin 0)
                 \<longrightarrow> adj ! i = Fin 0)"
proof -
  define C where "C = sum_list (map (\<lambda>i. clamp_to d (diff_at ms ts d i)) [0..<length ts])"
  have "(0 < d \<longrightarrow> 0 < C) \<and> (d < 0 \<longrightarrow> C < 0)"
    using assms(1,4) C_def by (rule clamped_total_sign)
  with assms(5) have C: "C \<noteq> 0" by auto
  let ?adj = "map (\<lambda>i. Fin (clamp_to d (diff_at ms ts d i) / C * d)) [0..<length ts]"
  have res: "rebalanceWithoutNegativeRebalancing (map Fin ms) (map Fin ts) (Fin d) = Inr ?adj"
    using assms(1,3,5) C_def C by (intro twopass_Fin) simp_all
  have diff: "diffInitial (map Fin ms) (map Fin ts) (Fin d)
                = map (\<lambda>i. Fin (diff_at ms ts d i)) [0..<length ts]"
    using assms(1,3) by (intro diffInitial_Fin) simp_all
  have "?adj ! i = Fin 0"
    if "i < length ts"
      and "(Fin d > Fin 0 \<and> diffInitial (map Fin ms) (map Fin ts) (Fin d) ! i < Fin 0)
           \<or> (Fin d < Fin 0 \<and> diffInitial (map Fin ms) (map Fin ts) (Fin d) ! i > Fin 0)" for i
    using that unfolding diff by (auto simp: clamp_to_def)
  then show ?thesis using res by (intro exI [of _ ?adj]) simp
qed

theorem clamped_assets_get_zero_witness:
  "\<exists>adj. rebalanceWithoutNegativeRebalancing (map Fin [6000, 5000, 6000])
            (map Fin [3/10, 1/2, 1/5]) (Fin 10000) = Inr adj
         \<and> length adj = 3
         \<and> diffInitial (map Fin [6000, 5000, 6000]) (map Fin [3/10, 1/2, 1/5]) (Fin 10000) ! 2
             = Fin (- 600)
         \<and> adj ! 2 = Fin 0"
proof -
  have diff: "diffInitial (map Fin [6000, 5000, 6000]) (map Fin [3/10, 1/2, 1/5]) (Fin 10000) ! 2
               = Fin (- 600)"
    by (simp add: diffInitial_def calculateAllocation_def kahanSum_def map_index_def
          elem_at_def Let_def upt_rec numeral_2_eq_2)
  from clamped_assets_get_zero [of "[6000, 5000, 6000]" "[3/10, 1/2, 1/5]" 10000]
  obtain adj where adj: "rebalanceWithoutNegativeRebalancing (map Fin [6000, 5000, 6000])
            (map Fin [3/10, 1/2, 1/5]) (Fin 10000) = Inr adj" "length adj = 3"
     "\<forall>i<3. (Fin 10000 > Fin 0 \<and> diffInitial (map Fin [6000, 5000, 6000]) (map Fin [3/10, 1/2, 1/5]) (Fin 10000) ! i < Fin 0)
                 \<or> (Fin 10000 < Fin 0 \<and> diffInitial (map Fin [6000, 5000, 6000]) (map Fin [3/10, 1/2, 1/5]) (Fin 10000) ! i > Fin 0)
                 \<longrightarrow> adj ! i = Fin 0"
    by (auto simp: numeral_3_eq_3)
  from adj(3) diff have "adj ! 2 = Fin 0" by simp
  with adj(1,2) diff show ?thesis by blast
qed

section \<open>Totals of zero\<close>

text \<open>
  Claim C5 says that \<open>calculateAllocation\<close> fails when the total is 0. It has no check:
  on two zeros it returns the total 0 and two \<open>NaN\<close>.
\<close>

theorem calculateAllocation_zero_total_counterexample:
  "kahanSum [Fin 0, Fin 0] = Fin 0 \<and> calculateAllocation [Fin 0, Fin 0] = (Fin 0, [NaN, NaN])"
  by (simp add: calculateAllocation_def kahanSum_def)

text \<open>
  Claim C5, amended. \<open>calculateAllocation\<close> returns a result on every sequence of finite
  numbers: the total, and for a nonzero total the fractions value/total; for a total of
  0 each fraction is \<open>NaN\<close> (a zero value) or an infinity (a nonzero value).
\<close>

theorem calculateAllocation_total:
  "calculateAllocation (map Fin xs) =
     (Fin (sum_list xs),
      map (\<lambda>x. if sum_list xs \<noteq> 0 then Fin (x / sum_list xs)
               else if x = 0 then NaN else if 0 < x then PInf else NInf) xs)"
  by (simp add: calculateAllocation_def kahanSum_Fin Let_def)

theorem calculateAllocation_total_witness:
  "calculateAllocation (map Fin [6000, 5000, 6000])
     = (Fin 17000, [Fin (6/17), Fin (5/17), Fin (6/17)])
   \<and> calculateAllocation (map Fin [1, 0, - 1]) = (Fin 0, [PInf, NaN, NInf])"
  using calculateAllocation_total [of "[6000, 5000, 6000]"]
    calculateAllocation_total [of "[1, 0, - 1]"]
  by simp

text \<open>
  Claim C6 says that \<open>rebalanceWithoutNegativeRebalancing\<close> fails when every difference
  is put to zero by the clamp. Two assets of sum 1 with targets 1/4 and 1/4 and 1 to
  add: both differences are negative, the clamp gives two zeros, and the result is two
  \<open>NaN\<close>, not an error.
\<close>

theorem no_movable_asset_counterexample:
  "sumFinalDividedDiffInitial [Fin 1, Fin 1] [Fin (1/4), Fin (1/4)] (Fin 1) = [Fin 0, Fin 0]
   \<and> rebalanceWithoutNegativeRebalancing [Fin 1, Fin 1] [Fin (1/4), Fin (1/4)] (Fin 1)
       = Inr [NaN, NaN]"
  by (simp add: rebalanceWithoutNegativeRebalancing_def sumFinalDividedDiffInitial_def
        diffInitial_def calculateAllocation_def kahanSum_def map_index_def elem_at_def
        strict_eq_def Let_def upt_rec)

lemma NaN_times [simp]: "NaN * x = NaN"
  by (cases x) simp_all

lemma calculateAllocation_zeros:
  "calculateAllocation (replicate n (Fin 0)) = (Fin 0, replicate n NaN)"
proof -
  have "calculateAllocation (map Fin (replicate n 0)) = (Fin 0, replicate n NaN)"
    unfolding calculateAllocation_Fin_all by (simp add: sum_list_replicate)
  then show ?thesis by simp
qed

text \<open>
  Claim C6, amended. For arguments of equal length and \<open>sumToAdd\<close> not equal to 0, when
  every entry of \<open>sumFinalDividedDiffInitial\<close> is 0 the function returns normally, and
  every entry of the result is \<open>NaN\<close>.
\<close>

theorem no_movable_asset_gives_NaN:
  assumes "length sumsInitial = length allocTargets"
    and "\<not> strict_eq sumToAdd (Fin 0)"
    and "\<forall>s\<in>set (sumFinalDividedDiffInitial sumsInitial allocTargets sumToAdd). s = Fin 0"
  shows "rebalanceWithoutNegativeRebalancing sumsInitial allocTargets sumToAdd
           = Inr (replicate (length allocTargets) NaN)"
proof -
  let ?cl = "sumFinalDividedDiffInitial sumsInitial allocTargets sumToAdd"
  have len: "length ?cl = length allocTargets"
    by (simp add: sumFinalDividedDiffInitial_def diffInitial_def map_index_def split_def Let_def)
  have "replicate (length ?cl) (Fin 0) = ?cl"
    using assms(3) by (rule replicate_length_same)
  then have "?cl = replicate (length allocTargets) (Fin 0)"
    using len by simp
  then show ?thesis
    using assms(1,2)
    by (simp add: rebalanceWithoutNegativeRebalancing_def calculateAllocation_zeros)
qed

theorem no_movable_asset_gives_NaN_witness:
  "rebalanceWithoutNegativeRebalancing [Fin 1, Fin 1] [Fin (1/4), Fin (1/4)] (Fin 1)
     = Inr (replicate (length [Fin (1/4), Fin (1/4)]) NaN)"
  by (rule no_movable_asset_gives_NaN)
     (simp_all add: sumFinalDividedDiffInitial_def
        diffInitial_def calculateAllocation_def kahanSum_def map_index_def elem_at_def
        strict_eq_def Let_def upt_rec)

section \<open>The redistribution loop with exact numbers\<close>

text \<open>
  With exact numbers each run of the \<open>for\<close> loop either leaves a remainder that is
  not negative or removes an index from the set, so the \<open>while\<close> loop ends. The
  lemmas of this section hold for exact numbers only; they serve the comparison of the
  two rebalancers in the last section.
\<close>

lemma ge_zero_not_less: "x \<ge> Fin 0 \<Longrightarrow> \<not> x < Fin 0"
  by (cases x) simp_all

lemma step_length [simp]: "length (sumDivided (redistributeStep c i st)) = length (sumDivided st)"
  by (simp add: redistributeStep_def Let_def)

lemma step_indexes:
  "indexesRedistribution (redistributeStep c i st) = indexesRedistribution st
   \<or> indexesRedistribution (redistributeStep c i st) = removeAll i (indexesRedistribution st)"
  by (simp add: redistributeStep_def Let_def set_delete_def)

lemma step_effect:
  assumes "i < length (sumDivided st)"
  shows "indexesRedistribution (redistributeStep c i st) = removeAll i (indexesRedistribution st)
   \<or> (indexesRedistribution (redistributeStep c i st) = indexesRedistribution st
      \<and> reimainingToDistribute (redistributeStep c i st) = reimainingToDistribute st - c)"
  using assms by (simp add: redistributeStep_def Let_def set_delete_def elem_at_def)

lemma step_ok: "indexes_ok st \<Longrightarrow> indexes_ok (redistributeStep c i st)"
  using step_indexes [of c i st] by (auto simp: indexes_ok_def distinct_removeAll)

lemma removeAll_shorter: "i \<in> set xs \<Longrightarrow> length (removeAll i xs) < length xs"
  by (induction xs) (auto simp: less_Suc_eq_le)

lemma redistribute_progress:
  assumes "distinct is" and "set is \<subseteq> set (indexesRedistribution st)" and "indexes_ok st"
  shows "indexes_ok (redistribute c is st)
    \<and> length (indexesRedistribution (redistribute c is st)) \<le> length (indexesRedistribution st)
    \<and> (length (indexesRedistribution (redistribute c is st)) < length (indexesRedistribution st)
       \<or> \<not> reimainingToDistribute (redistribute c is st) < Fin 0
       \<or> reimainingToDistribute (redistribute c is st)
           = ((\<lambda>r. r - c) ^^ length is) (reimainingToDistribute st))"
  using assms
proof (induction "is" arbitrary: st)
  case Nil
  then show ?case by simp
next
  case (Cons i rest)
  let ?st1 = "redistributeStep c i st"
  have i: "i \<in> set (indexesRedistribution st)" "i < length (sumDivided st)"
    using Cons.prems by (auto simp: indexes_ok_def)
  have ok1: "indexes_ok ?st1" using Cons.prems(3) by (rule step_ok)
  have le1: "length (indexesRedistribution ?st1) \<le> length (indexesRedistribution st)"
    using step_indexes [of c i st] by auto
  show ?case
  proof (cases "reimainingToDistribute ?st1 \<ge> Fin 0")
    case True
    then show ?thesis using ok1 le1 by (simp add: Let_def ge_zero_not_less)
  next
    case False
    let ?st' = "redistribute c rest ?st1"
    have res: "redistribute c (i # rest) st = ?st'" using False by (simp add: Let_def)
    have sub: "set rest \<subseteq> set (indexesRedistribution ?st1)"
      using Cons.prems(1,2) step_indexes [of c i st] by auto
    from Cons.IH [OF _ sub ok1] Cons.prems(1)
    have IH: "indexes_ok ?st'"
      "length (indexesRedistribution ?st') \<le> length (indexesRedistribution ?st1)"
      "length (indexesRedistribution ?st') < length (indexesRedistribution ?st1)
       \<or> \<not> reimainingToDistribute ?st' < Fin 0
       \<or> reimainingToDistribute ?st' = ((\<lambda>r. r - c) ^^ length rest) (reimainingToDistribute ?st1)"
      by simp_all
    from step_effect [OF i(2), of c]
    show ?thesis
    proof
      assume "indexesRedistribution ?st1 = removeAll i (indexesRedistribution st)"
      then have "length (indexesRedistribution ?st1) < length (indexesRedistribution st)"
        using i(1) by (simp add: removeAll_shorter)
      then show ?thesis unfolding res using IH(1,2) by simp
    next
      assume same: "indexesRedistribution ?st1 = indexesRedistribution st
        \<and> reimainingToDistribute ?st1 = reimainingToDistribute st - c"
      have "((\<lambda>r. r - c) ^^ length rest) (reimainingToDistribute st - c)
              = ((\<lambda>r. r - c) ^^ length (i # rest)) (reimainingToDistribute st)"
        using funpow_swap1 [of "\<lambda>r. r - c" "length rest" "reimainingToDistribute st"] by simp
      then show ?thesis unfolding res using IH same by auto
    qed
  qed
qed

lemma funpow_minus_Fin: "((\<lambda>x. x - Fin c) ^^ k) (Fin r) = Fin (r - real k * c)"
  by (induction k) (simp_all add: algebra_simps)

lemma funpow_minus_NInf: "((\<lambda>x. x - NInf) ^^ Suc k) NInf = NaN"
  by (induction k) (simp_all add: minus_jsnum_def)

lemma even_shares_exhaust:
  assumes "R < Fin 0" and "0 < n"
  shows "\<not> ((\<lambda>r. r - R / Fin (real n)) ^^ n) R < Fin 0"
proof (cases R)
  case (Fin r)
  have "((\<lambda>x. x - Fin (r / real n)) ^^ n) (Fin r) = Fin (r - real n * (r / real n))"
    by (rule funpow_minus_Fin)
  then show ?thesis using Fin assms(2) by simp
next
  case NInf
  obtain k where k: "n = Suc k" using assms(2) by (cases n) simp_all
  have "NInf / Fin (real n) = NInf" by simp
  then show ?thesis unfolding NInf k using funpow_minus_NInf [of k] by simp
qed (use assms(1) in simp_all)

lemma pass_progress:
  assumes "indexes_ok st" and "reimainingToDistribute st < Fin 0"
    and "0 < length (indexesRedistribution st)"
    and "st1 = redistribute
                 (reimainingToDistribute st / Fin (real (length (indexesRedistribution st))))
                 (indexesRedistribution st) st"
  shows "length (indexesRedistribution st1) < length (indexesRedistribution st)
         \<or> \<not> reimainingToDistribute st1 < Fin 0"
proof -
  let ?c = "reimainingToDistribute st / Fin (real (length (indexesRedistribution st)))"
  have "distinct (indexesRedistribution st)" using assms(1) by (simp add: indexes_ok_def)
  from redistribute_progress [OF this subset_refl assms(1), of ?c]
  have "length (indexesRedistribution st1) < length (indexesRedistribution st)
         \<or> \<not> reimainingToDistribute st1 < Fin 0
         \<or> reimainingToDistribute st1
            = ((\<lambda>r. r - ?c) ^^ length (indexesRedistribution st)) (reimainingToDistribute st)"
    unfolding assms(4) by simp
  moreover have
    "\<not> ((\<lambda>r. r - ?c) ^^ length (indexesRedistribution st)) (reimainingToDistribute st) < Fin 0"
    using assms(2,3) by (rule even_shares_exhaust)
  ultimately show ?thesis by auto
qed

lemma redistributionLoop_returns:
  assumes "indexes_ok st"
  shows "\<exists>st'. redistributionLoop st = Some st'"
  using assms
proof (induction "length (indexesRedistribution st)" arbitrary: st rule: less_induct)
  case less
  show ?case
  proof (cases "reimainingToDistribute st < Fin 0 \<and> length (indexesRedistribution st) > 0")
    case False
    then show ?thesis by (subst redistributionLoop.simps) auto
  next
    case True
    let ?c = "reimainingToDistribute st / Fin (real (length (indexesRedistribution st)))"
    let ?st1 = "redistribute ?c (indexesRedistribution st) st"
    have unfold: "redistributionLoop st = redistributionLoop ?st1"
      using True by (subst redistributionLoop.simps) simp
    have "distinct (indexesRedistribution st)" using less.prems by (simp add: indexes_ok_def)
    from redistribute_progress [OF this subset_refl less.prems, of ?c]
    have ok1: "indexes_ok ?st1" by simp
    from True have neg: "reimainingToDistribute st < Fin 0"
      and size: "0 < length (indexesRedistribution st)" by simp_all
    from pass_progress [OF less.prems neg size refl]
    show ?thesis
    proof
      assume "length (indexesRedistribution ?st1) < length (indexesRedistribution st)"
      then show ?thesis unfolding unfold using ok1 by (rule less.hyps)
    next
      assume "\<not> reimainingToDistribute ?st1 < Fin 0"
      then have "redistributionLoop ?st1 = Some ?st1"
        by (subst redistributionLoop.simps) simp
      then show ?thesis unfolding unfold by blast
    qed
  qed
qed

lemma subdivide_ok:
  assumes "distinct idx" and "\<forall>i\<in>set idx. i < length sd" and "\<forall>p\<in>set ps. snd p < length sd"
    and "fold (subdivide sumInitial allocInitial sumToAdd) ps (neg, idx, sd) = (neg', idx', sd')"
  shows "distinct idx' \<and> (\<forall>i\<in>set idx'. i < length sd') \<and> length sd' = length sd"
  using assms
proof (induction ps arbitrary: neg idx sd)
  case Nil
  then show ?case by simp
next
  case (Cons p ps)
  obtain neg1 idx1 sd1 where step:
    "subdivide sumInitial allocInitial sumToAdd p (neg, idx, sd) = (neg1, idx1, sd1)"
    by (cases "subdivide sumInitial allocInitial sumToAdd p (neg, idx, sd)") auto
  have "snd p < length sd" using Cons.prems(3) by simp
  with step Cons.prems(1,2) have one:
    "distinct idx1" "\<forall>i\<in>set idx1. i < length sd1" "length sd1 = length sd"
    by (auto simp: subdivide_def set_add_def Let_def split: prod.splits if_splits)
  have step': "fold (subdivide sumInitial allocInitial sumToAdd) ps (neg1, idx1, sd1) = (neg', idx', sd')"
    using Cons.prems(4) step by simp
  have "\<forall>p\<in>set ps. snd p < length sd1" using Cons.prems(3) one(3) by simp
  from Cons.IH [OF one(1,2) this step'] one(3) show ?case by auto
qed

text \<open>
  With exact numbers the rebalancer with the loop returns on every input, of equal
  lengths or not.
\<close>

lemma iterative_returns_exact:
  "\<exists>adj. rebalanceWithoutNegativeRebalancingIterative sumInitial allocInitial allocTargets sumToAdd
            = Some adj"
proof -
  let ?n = "length allocTargets"
  obtain neg idx sd where f:
    "fold (subdivide sumInitial allocInitial sumToAdd) (zip allocTargets [0..<?n])
       (Fin 0, [], replicate ?n NaN) = (neg, idx, sd)"
    by (cases "fold (subdivide sumInitial allocInitial sumToAdd) (zip allocTargets [0..<?n])
       (Fin 0, [], replicate ?n NaN)") auto
  have "\<forall>p\<in>set (zip allocTargets [0..<?n]). snd p < length (replicate ?n NaN)"
    by (auto dest: set_zip_rightD)
  from subdivide_ok [OF _ _ this f]
  have "indexes_ok \<lparr>sumDivided = sd, reimainingToDistribute = neg, indexesRedistribution = idx\<rparr>"
    by (auto simp: indexes_ok_def)
  then obtain st' where
    "redistributionLoop \<lparr>sumDivided = sd, reimainingToDistribute = neg, indexesRedistribution = idx\<rparr>
       = Some st'"
    using redistributionLoop_returns by blast
  then show ?thesis
    by (simp add: rebalanceWithoutNegativeRebalancingIterative_def f)
qed

text \<open>
  Claim C9 says that the loop ends on every input. That is not so for the script, which
  computes in doubles. With \<open>sumInitial\<close> 8, \<open>allocInitial\<close> 1/8, 1/8, 1/8, 5/8, four
  targets of 1/4 and 8 to add, the subdivisions are 3, 3, 3 and -1. With exact numbers
  three shares of -1/3 make up the remainder and the result is 8/3, 8/3, 8/3, 0. In
  doubles three times the rounded share leaves a remainder near -1.1e-16, each later
  run leaves a smaller negative remainder and removes no index, and the remainder
  reaches -5e-324, whose third rounds to zero. A run of the \<open>for\<close> loop with a share
  of zero changes nothing, so from there the \<open>while\<close> loop repeats the same state.
\<close>

lemma iterative_exact_result:
  "rebalanceWithoutNegativeRebalancingIterative (Fin 8)
     [Fin (1/8), Fin (1/8), Fin (1/8), Fin (5/8)] [Fin (1/4), Fin (1/4), Fin (1/4), Fin (1/4)]
     (Fin 8)
   = Some [Fin (8/3), Fin (8/3), Fin (8/3), Fin 0]"
  by (simp add: rebalanceWithoutNegativeRebalancingIterative_def subdivide_def elem_at_def
        set_add_def set_delete_def redistributionLoop.simps redistributeStep_def Let_def)

lemma zero_share_step_idle:
  assumes "elem_at (sumDivided st) i = Fin x" and "0 < x"
    and "reimainingToDistribute st = Fin r"
  shows "redistributeStep (Fin 0) i st = st"
proof -
  have i: "i < length (sumDivided st)" "sumDivided st ! i = Fin x"
    using assms(1) by (auto simp: elem_at_def split: if_splits)
  then have same: "(sumDivided st)[i := Fin x] = sumDivided st"
    by (metis list_update_id)
  show ?thesis
    using assms i(1) by (simp add: redistributeStep_def Let_def same elem_at_def)
qed

lemma zero_share_pass_idle:
  assumes "\<forall>i\<in>set is. \<exists>x. elem_at (sumDivided st) i = Fin x \<and> 0 < x"
    and "reimainingToDistribute st = Fin r" and "r < 0"
  shows "redistribute (Fin 0) is st = st"
  using assms(1)
proof (induction "is")
  case Nil
  then show ?case by simp
next
  case (Cons i rest)
  then obtain x where "elem_at (sumDivided st) i = Fin x" "0 < x" by auto
  then have "redistributeStep (Fin 0) i st = st"
    using assms(2) by (rule zero_share_step_idle)
  then show ?case using Cons assms(2,3) by (simp add: Let_def)
qed

section \<open>The two constrained rebalancers\<close>

text \<open>
  Claim C8 says that the rebalancer with the loop and the latest one return equal
  vectors on every valid input with a positive sum to add. Sums 2, 2, 6 with targets
  1/2, 3/10, 1/5 and 10 to add: \<open>rebalance\<close> gives 8, 4, -2; the loop takes the 2 in
  equal parts from the first two assets and returns 7, 3, 0; the latest version shares
  10 in the proportion 8 : 4 and returns 20/3, 10/3, 0.
\<close>

theorem variants_differ_counterexample:
  "calculateAllocation [Fin 2, Fin 2, Fin 6] = (Fin 10, [Fin (1/5), Fin (1/5), Fin (3/5)])
   \<and> rebalanceWithoutNegativeRebalancingIterative (Fin 10) [Fin (1/5), Fin (1/5), Fin (3/5)]
         [Fin (1/2), Fin (3/10), Fin (1/5)] (Fin 10) = Some [Fin 7, Fin 3, Fin 0]
   \<and> rebalanceWithoutNegativeRebalancing [Fin 2, Fin 2, Fin 6]
         [Fin (1/2), Fin (3/10), Fin (1/5)] (Fin 10) = Inr [Fin (20/3), Fin (10/3), Fin 0]
   \<and> rebalance (Fin 10) [Fin (1/5), Fin (1/5), Fin (3/5)]
         [Fin (1/2), Fin (3/10), Fin (1/5)] (Fin 10) = Inr [Fin 8, Fin 4, Fin (- 2)]
   \<and> [Fin 7, Fin 3, Fin 0] \<noteq> [Fin (20/3), Fin (10/3), Fin 0]"
  by (simp add: rebalanceWithoutNegativeRebalancingIterative_def subdivide_def elem_at_def
        set_add_def set_delete_def redistributionLoop.simps redistributeStep_def Let_def
        rebalanceWithoutNegativeRebalancing_def sumFinalDividedDiffInitial_def
        diffInitial_def calculateAllocation_def kahanSum_def map_index_def
        strict_eq_def upt_rec rebalance_def)

lemma subdivision_Fin:
  assumes "length ms = length ts" and "sum_list ms \<noteq> 0" and "i < length ts"
  shows "((Fin (ts ! i) - elem_at (map (\<lambda>m. Fin (m / sum_list ms)) ms) i) * Fin (sum_list ms))
           + (Fin (ts ! i) * Fin d) = Fin (diff_at ms ts d i)"
  using assms by (simp add: elem_at_map diff_at_def algebra_simps)

lemma subdivide_Fin:
  assumes "length ms = length ts" and "sum_list ms \<noteq> 0" and "i < length ts"
  shows "subdivide (Fin (sum_list ms)) (map (\<lambda>m. Fin (m / sum_list ms)) ms) (Fin d)
           (Fin (ts ! i), i) (neg, idx, sd)
         = (if diff_at ms ts d i \<le> 0
            then (neg + Fin (diff_at ms ts d i), idx, sd[i := Fin 0])
            else (neg, set_add i idx, sd[i := Fin (diff_at ms ts d i)]))"
  unfolding subdivide_def prod.case Let_def subdivision_Fin [OF assms]
  by simp

lemma subdivide_prefix:
  assumes "length ms = length ts" and "sum_list ms \<noteq> 0" and "k \<le> length ts"
  shows "fold (subdivide (Fin (sum_list ms)) (map (\<lambda>m. Fin (m / sum_list ms)) ms) (Fin d))
           (zip (take k (map Fin ts)) [0..<k]) (Fin 0, [], replicate (length ts) NaN)
         = (Fin (\<Sum>i\<leftarrow>[0..<k]. min 0 (diff_at ms ts d i)),
            filter (\<lambda>i. 0 < diff_at ms ts d i) [0..<k],
            map (\<lambda>i. Fin (max 0 (diff_at ms ts d i))) [0..<k] @ replicate (length ts - k) NaN)"
  using assms(3)
proof (induction k)
  case 0
  then show ?case by simp
next
  case (Suc k)
  then have k: "k < length ts" by simp
  let ?f = "subdivide (Fin (sum_list ms)) (map (\<lambda>m. Fin (m / sum_list ms)) ms) (Fin d)"
  have zip: "zip (take (Suc k) (map Fin ts)) [0..<Suc k]
               = zip (take k (map Fin ts)) [0..<k] @ [(Fin (ts ! k), k)]"
    using k by (simp add: take_Suc_conv_app_nth)
  have sub: "?f (Fin (ts ! k), k) (neg, idx, sd)
         = (if diff_at ms ts d k \<le> 0
            then (neg + Fin (diff_at ms ts d k), idx, sd[k := Fin 0])
            else (neg, set_add k idx, sd[k := Fin (diff_at ms ts d k)]))" for neg idx sd
    using assms(1,2) k by (rule subdivide_Fin)
  have upd: "(map g [0..<k] @ replicate (length ts - k) NaN)[k := v]
               = map g [0..<k] @ [v] @ replicate (length ts - Suc k) NaN" for g v
  proof -
    obtain j where j: "length ts - k = Suc j" using k by (cases "length ts - k") simp_all
    then have "length ts - Suc k = j" by simp
    then show ?thesis using j by (simp add: list_update_append)
  qed
  have IH: "fold ?f (zip (take k (map Fin ts)) [0..<k]) (Fin 0, [], replicate (length ts) NaN)
         = (Fin (\<Sum>i\<leftarrow>[0..<k]. min 0 (diff_at ms ts d i)),
            filter (\<lambda>i. 0 < diff_at ms ts d i) [0..<k],
            map (\<lambda>i. Fin (max 0 (diff_at ms ts d i))) [0..<k] @ replicate (length ts - k) NaN)"
    using Suc.IH k by simp
  show ?case
    unfolding zip fold_append comp_def IH
    by (simp add: sub upd set_add_def del: replicate_Suc)
qed

lemma subdivide_all:
  assumes "length ms = length ts" and "sum_list ms \<noteq> 0"
  shows "fold (subdivide (Fin (sum_list ms)) (map (\<lambda>m. Fin (m / sum_list ms)) ms) (Fin d))
           (zip (map Fin ts) [0..<length (map Fin ts)])
           (Fin 0, [], replicate (length (map Fin ts)) NaN)
         = (Fin (\<Sum>i\<leftarrow>[0..<length ts]. min 0 (diff_at ms ts d i)),
            filter (\<lambda>i. 0 < diff_at ms ts d i) [0..<length ts],
            map (\<lambda>i. Fin (max 0 (diff_at ms ts d i))) [0..<length ts])"
  using subdivide_prefix [OF assms order_refl, of d] by simp

lemma variants_agree:
  assumes "length ms = length ts"
    and "\<forall>m\<in>set ms. 0 \<le> m" and "0 < sum_list ms"
    and "sum_list ts = 1" and "0 < d"
    and "\<forall>x\<in>set (diffInitial (map Fin ms) (map Fin ts) (Fin d)). \<not> x < Fin 0"
  shows "\<exists>adj. rebalanceWithoutNegativeRebalancing (map Fin ms) (map Fin ts) (Fin d) = Inr adj
           \<and> (case calculateAllocation (map Fin ms) of
                (sumInitial, allocInitial) \<Rightarrow>
                  rebalanceWithoutNegativeRebalancingIterative sumInitial allocInitial
                    (map Fin ts) (Fin d)) = Some adj"
proof -
  let ?adj = "map (\<lambda>i. Fin (diff_at ms ts d i)) [0..<length ts]"
  have T: "sum_list ms \<noteq> 0" using assms(3) by simp
  have diff: "diffInitial (map Fin ms) (map Fin ts) (Fin d) = ?adj"
    using assms(1) T by (rule diffInitial_Fin)
  have nonneg: "\<forall>i<length ts. 0 \<le> diff_at ms ts d i \<and> \<not> diff_at ms ts d i < 0"
  proof (intro allI impI)
    fix i assume "i < length ts"
    then have "Fin (diff_at ms ts d i) \<in> set ?adj" by simp
    with assms(6) have "\<not> Fin (diff_at ms ts d i) < Fin 0" unfolding diff by blast
    then show "0 \<le> diff_at ms ts d i \<and> \<not> diff_at ms ts d i < 0" by simp
  qed
  have total: "sum_list (map (diff_at ms ts d) [0..<length ts]) = d"
    using assms(1,4) by (rule diff_total)
  have cl: "map (\<lambda>i. clamp_to d (diff_at ms ts d i)) [0..<length ts]
              = map (diff_at ms ts d) [0..<length ts]"
    using assms(5) nonneg by (intro map_cong refl) (auto simp: clamp_to_def)
  have "rebalanceWithoutNegativeRebalancing (map Fin ms) (map Fin ts) (Fin d)
          = Inr (map (\<lambda>i. Fin (clamp_to d (diff_at ms ts d i) / d * d)) [0..<length ts])"
    using assms(1) T assms(5) by (intro twopass_Fin) (simp_all add: cl total)
  also have "map (\<lambda>i. Fin (clamp_to d (diff_at ms ts d i) / d * d)) [0..<length ts] = ?adj"
    using assms(5) nonneg by (intro map_cong refl) (auto simp: clamp_to_def)
  finally have closed: "rebalanceWithoutNegativeRebalancing (map Fin ms) (map Fin ts) (Fin d)
          = Inr ?adj" .
  have "(\<Sum>i\<leftarrow>[0..<length ts]. min 0 (diff_at ms ts d i)) = (\<Sum>i\<leftarrow>[0..<length ts]. 0)"
    using nonneg by (intro arg_cong [where f = sum_list] map_cong refl) auto
  then have neg: "(\<Sum>i\<leftarrow>[0..<length ts]. min 0 (diff_at ms ts d i)) = 0" by simp
  have pos: "map (\<lambda>i. Fin (max 0 (diff_at ms ts d i))) [0..<length ts] = ?adj"
    using nonneg by (intro map_cong refl) auto
  have "rebalanceWithoutNegativeRebalancingIterative (Fin (sum_list ms))
          (map (\<lambda>m. Fin (m / sum_list ms)) ms) (map Fin ts) (Fin d) = Some ?adj"
    unfolding rebalanceWithoutNegativeRebalancingIterative_def
      subdivide_all [OF assms(1) T] neg pos
    by simp
  then have "(case calculateAllocation (map Fin ms) of
                (sumInitial, allocInitial) \<Rightarrow>
                  rebalanceWithoutNegativeRebalancingIterative sumInitial allocInitial
                    (map Fin ts) (Fin d)) = Some ?adj"
    using T by (simp add: calculateAllocation_Fin)
  with closed show ?thesis by blast
qed

lemma sum_list_update_real:
  fixes xs :: "real list"
  shows "k < length xs \<Longrightarrow> sum_list (xs[k := x]) = sum_list xs + x - xs ! k"
proof (induction xs arbitrary: k)
  case Nil
  then show ?case by simp
next
  case (Cons a xs)
  then show ?case by (cases k) simp_all
qed

lemma step_Fin:
  assumes "i < length xs"
  shows "redistributeStep (Fin c) i
           \<lparr>sumDivided = map Fin xs, reimainingToDistribute = Fin r, indexesRedistribution = idx\<rparr>
         = (if 0 \<le> xs ! i + c
            then \<lparr>sumDivided = map Fin (xs[i := xs ! i + c]),
                  reimainingToDistribute = Fin (r - c),
                  indexesRedistribution = (if xs ! i + c \<le> 0 then removeAll i idx else idx)\<rparr>
            else \<lparr>sumDivided = map Fin (xs[i := 0]),
                  reimainingToDistribute = Fin (r + xs ! i),
                  indexesRedistribution = removeAll i idx\<rparr>)"
  using assms
  by (simp add: redistributeStep_def Let_def elem_at_def set_delete_def map_update)

lemma balanced_step:
  assumes "balanced d xs r idx" and "i \<in> set idx" and "c \<le> 0" and "r \<le> (1 + k) * c"
    and "0 \<le> k"
  shows "\<exists>xs' r' idx'.
           redistributeStep (Fin c) i
             \<lparr>sumDivided = map Fin xs, reimainingToDistribute = Fin r, indexesRedistribution = idx\<rparr>
           = \<lparr>sumDivided = map Fin xs', reimainingToDistribute = Fin r',
              indexesRedistribution = idx'\<rparr>
           \<and> balanced d xs' r' idx' \<and> length xs' = length xs
           \<and> set idx - {i} \<subseteq> set idx' \<and> set idx' \<subseteq> set idx \<and> r' \<le> k * c"
proof -
  have i: "i < length xs" using assms(1,2) by (simp add: balanced_def)
  have xi: "0 \<le> xs ! i" using assms(1) i by (simp add: balanced_def)
  show ?thesis
  proof (cases "0 \<le> xs ! i + c")
    case True
    let ?xs = "xs[i := xs ! i + c]"
    let ?idx = "if xs ! i + c \<le> 0 then removeAll i idx else idx"
    have nonneg: "\<forall>x\<in>set ?xs. 0 \<le> x"
      using assms(1) True set_update_subset_insert [of xs i "xs ! i + c"]
      by (auto simp: balanced_def)
    have total: "sum_list ?xs + (r - c) = d"
      using assms(1) i by (simp add: sum_list_update_real balanced_def)
    have rk: "r - c \<le> k * c" using assms(4) by (simp add: algebra_simps)
    have r0: "r - c \<le> 0"
      using rk assms(3,5) by (meson mult_nonneg_nonpos order_trans)
    have zero: "\<forall>j<length ?xs. j \<notin> set ?idx \<longrightarrow> ?xs ! j = 0"
      using assms(1,2) True i by (auto simp: balanced_def nth_list_update)
    have "balanced d ?xs (r - c) ?idx"
      unfolding balanced_def using nonneg total r0 zero assms(1)
      by (auto simp: balanced_def distinct_removeAll)
    then show ?thesis
      using True rk by (subst step_Fin [OF i]) (auto intro!: exI)
  next
    case False
    let ?xs = "xs[i := 0]"
    have nonneg: "\<forall>x\<in>set ?xs. 0 \<le> x"
      using assms(1) set_update_subset_insert [of xs i 0] by (auto simp: balanced_def)
    have total: "sum_list ?xs + (r + xs ! i) = d"
      using assms(1) i by (simp add: sum_list_update_real balanced_def)
    have rk: "r + xs ! i \<le> k * c" using assms(4) False by (simp add: algebra_simps)
    have r0: "r + xs ! i \<le> 0"
      using rk assms(3,5) by (meson mult_nonneg_nonpos order_trans)
    have zero: "\<forall>j<length ?xs. j \<notin> set (removeAll i idx) \<longrightarrow> ?xs ! j = 0"
      using assms(1) i by (auto simp: balanced_def nth_list_update)
    have "balanced d ?xs (r + xs ! i) (removeAll i idx)"
      unfolding balanced_def using nonneg total r0 zero assms(1)
      by (auto simp: balanced_def distinct_removeAll)
    then show ?thesis
      using False rk by (subst step_Fin [OF i]) (auto intro!: exI)
  qed
qed

lemma balanced_redistribute:
  assumes "balanced d xs r idx" and "distinct is" and "set is \<subseteq> set idx" and "c \<le> 0"
    and "r \<le> real (length is) * c"
  shows "\<exists>xs' r' idx'.
           redistribute (Fin c) is
             \<lparr>sumDivided = map Fin xs, reimainingToDistribute = Fin r, indexesRedistribution = idx\<rparr>
           = \<lparr>sumDivided = map Fin xs', reimainingToDistribute = Fin r',
              indexesRedistribution = idx'\<rparr>
           \<and> balanced d xs' r' idx' \<and> length xs' = length xs"
  using assms
proof (induction "is" arbitrary: xs r idx)
  case Nil
  then show ?case by auto
next
  case (Cons i rest)
  have rk: "r \<le> (1 + real (length rest)) * c" using Cons.prems(5) by simp
  have i: "i \<in> set idx" using Cons.prems(3) by simp
  have k0: "0 \<le> real (length rest)" by simp
  from balanced_step [OF Cons.prems(1) i Cons.prems(4) rk k0]
  obtain xs1 r1 idx1 where step:
    "redistributeStep (Fin c) i
       \<lparr>sumDivided = map Fin xs, reimainingToDistribute = Fin r, indexesRedistribution = idx\<rparr>
     = \<lparr>sumDivided = map Fin xs1, reimainingToDistribute = Fin r1,
        indexesRedistribution = idx1\<rparr>"
    and bal: "balanced d xs1 r1 idx1" and len: "length xs1 = length xs"
    and sub: "set idx - {i} \<subseteq> set idx1" and r1: "r1 \<le> real (length rest) * c"
    by auto
  show ?case
  proof (cases "0 \<le> r1")
    case True
    then have "redistribute (Fin c) (i # rest)
        \<lparr>sumDivided = map Fin xs, reimainingToDistribute = Fin r, indexesRedistribution = idx\<rparr>
        = \<lparr>sumDivided = map Fin xs1, reimainingToDistribute = Fin r1,
           indexesRedistribution = idx1\<rparr>"
      using step by (simp add: Let_def)
    then show ?thesis using bal len by blast
  next
    case False
    have rest: "set rest \<subseteq> set idx1" using Cons.prems(2,3) sub by auto
    have dist: "distinct rest" using Cons.prems(2) by simp
    have "redistribute (Fin c) (i # rest)
        \<lparr>sumDivided = map Fin xs, reimainingToDistribute = Fin r, indexesRedistribution = idx\<rparr>
        = redistribute (Fin c) rest \<lparr>sumDivided = map Fin xs1, reimainingToDistribute = Fin r1,
           indexesRedistribution = idx1\<rparr>"
      using step False by (simp add: Let_def)
    with Cons.IH [OF bal dist rest Cons.prems(4) r1] len
    show ?thesis by auto
  qed
qed

lemma balanced_empty:
  assumes "balanced d xs r []"
  shows "sum_list xs = 0"
proof -
  have "\<forall>x\<in>set xs. x = 0"
    using assms by (auto simp: balanced_def in_set_conv_nth)
  then show ?thesis by (induction xs) simp_all
qed

lemma balanced_loop:
  assumes "balanced d xs r idx" and "0 < d"
  shows "\<exists>xs'. map_option sumDivided (redistributionLoop
           \<lparr>sumDivided = map Fin xs, reimainingToDistribute = Fin r, indexesRedistribution = idx\<rparr>)
           = Some (map Fin xs')
         \<and> (\<forall>x\<in>set xs'. 0 \<le> x) \<and> sum_list xs' = d \<and> length xs' = length xs"
  using assms(1)
proof (induction "length idx" arbitrary: xs r idx rule: less_induct)
  case less
  let ?st = "\<lparr>sumDivided = map Fin xs, reimainingToDistribute = Fin r,
              indexesRedistribution = idx\<rparr>"
  have stopped: ?case if stop: "redistributionLoop ?st = Some ?st" and r: "\<not> r < 0 \<or> idx = []"
  proof -
    have "r = 0"
    proof (rule ccontr)
      assume "r \<noteq> 0"
      with less.prems have "r < 0" by (simp add: balanced_def)
      with r have "idx = []" by simp
      with less.prems have "sum_list xs = 0" using balanced_empty by blast
      with less.prems assms(2) \<open>r < 0\<close> show False by (simp add: balanced_def)
    qed
    with less.prems have "sum_list xs = d" "\<forall>x\<in>set xs. 0 \<le> x" by (simp_all add: balanced_def)
    then show ?thesis using stop by auto
  qed
  show ?case
  proof (cases "r < 0 \<and> 0 < length idx")
    case False
    then have "redistributionLoop ?st = Some ?st"
      by (subst redistributionLoop.simps) auto
    then show ?thesis using False by (intro stopped) auto
  next
    case True
    let ?c = "r / real (length idx)"
    let ?st1 = "redistribute (Fin ?c) idx ?st"
    have c: "Fin r / Fin (real (length idx)) = Fin ?c" using True by simp
    have unfold: "redistributionLoop ?st = redistributionLoop ?st1"
      using True by (subst redistributionLoop.simps) simp
    have dist: "distinct idx" using less.prems by (simp add: balanced_def)
    have c0: "?c \<le> 0" using True by (simp add: divide_nonpos_pos)
    have rc: "r \<le> real (length idx) * ?c" using True by simp
    obtain xs1 r1 idx1 where
      st1: "?st1 = \<lparr>sumDivided = map Fin xs1, reimainingToDistribute = Fin r1,
                    indexesRedistribution = idx1\<rparr>"
      and bal: "balanced d xs1 r1 idx1" and len: "length xs1 = length xs"
      using balanced_redistribute [OF less.prems dist subset_refl c0 rc] by blast
    have "indexes_ok ?st" using less.prems by (simp add: indexes_ok_def balanced_def)
    from pass_progress [OF this, of ?st1] True
    have "length idx1 < length idx \<or> \<not> r1 < 0" by (simp add: st1)
    then show ?thesis
    proof
      assume "length idx1 < length idx"
      from less.hyps [OF this bal] show ?thesis unfolding unfold st1 len .
    next
      assume r1: "\<not> r1 < 0"
      then have "redistributionLoop ?st1 = Some ?st1"
        unfolding st1 by (subst redistributionLoop.simps) simp
      moreover have "r1 = 0" using r1 bal by (simp add: balanced_def)
      ultimately show ?thesis
        unfolding unfold using bal len by (auto simp: st1 balanced_def)
    qed
  qed
qed

lemma subdivide_balanced:
  fixes d :: real
  assumes "length ms = length ts" and "sum_list ts = 1"
  shows "balanced d (map (\<lambda>i. max 0 (diff_at ms ts d i)) [0..<length ts])
           (\<Sum>i\<leftarrow>[0..<length ts]. min 0 (diff_at ms ts d i))
           (filter (\<lambda>i. 0 < diff_at ms ts d i) [0..<length ts])"
proof -
  have "(\<Sum>i\<leftarrow>[0..<length ts]. max 0 (diff_at ms ts d i))
          + (\<Sum>i\<leftarrow>[0..<length ts]. min 0 (diff_at ms ts d i))
        = (\<Sum>i\<leftarrow>[0..<length ts]. max 0 (diff_at ms ts d i) + min 0 (diff_at ms ts d i))"
    by (simp add: sum_list_addf)
  also have "\<dots> = sum_list (map (diff_at ms ts d) [0..<length ts])"
    by (intro arg_cong [where f = sum_list] map_cong refl) simp
  also have "\<dots> = d" using assms by (rule diff_total)
  finally have total: "sum_list (map (\<lambda>i. max 0 (diff_at ms ts d i)) [0..<length ts])
          + (\<Sum>i\<leftarrow>[0..<length ts]. min 0 (diff_at ms ts d i)) = d"
    by (simp add: comp_def)
  have "(\<Sum>i\<leftarrow>[0..<length ts]. min 0 (diff_at ms ts d i)) \<le> 0"
    by (intro sum_list_nonpos) auto
  then show ?thesis
    unfolding balanced_def using total by auto
qed

lemma iterative_shares:
  assumes "length ms = length ts" and "0 < sum_list ms" and "sum_list ts = 1" and "0 < d"
  shows "\<exists>adj. (case calculateAllocation (map Fin ms) of
                 (sumInitial, allocInitial) \<Rightarrow>
                   rebalanceWithoutNegativeRebalancingIterative sumInitial allocInitial
                     (map Fin ts) (Fin d)) = Some (map Fin adj)
           \<and> length adj = length ts \<and> sum_list adj = d \<and> (\<forall>x\<in>set adj. 0 \<le> x)"
proof -
  let ?xs = "map (\<lambda>i. max 0 (diff_at ms ts d i)) [0..<length ts]"
  let ?r = "\<Sum>i\<leftarrow>[0..<length ts]. min 0 (diff_at ms ts d i)"
  let ?idx = "filter (\<lambda>i. 0 < diff_at ms ts d i) [0..<length ts]"
  have T: "sum_list ms \<noteq> 0" using assms(2) by simp
  have bal: "balanced d ?xs ?r ?idx" using assms(1,3) by (rule subdivide_balanced)
  have sd: "map (\<lambda>i. Fin (max 0 (diff_at ms ts d i))) [0..<length ts] = map Fin ?xs"
    by simp
  have run: "rebalanceWithoutNegativeRebalancingIterative (Fin (sum_list ms))
          (map (\<lambda>m. Fin (m / sum_list ms)) ms) (map Fin ts) (Fin d)
        = (if ?r < 0
           then map_option sumDivided (redistributionLoop
                  \<lparr>sumDivided = map Fin ?xs, reimainingToDistribute = Fin ?r,
                   indexesRedistribution = ?idx\<rparr>)
           else Some (map Fin ?xs))"
    unfolding rebalanceWithoutNegativeRebalancingIterative_def
      subdivide_all [OF assms(1) T] sd
    by simp
  have "\<exists>adj. rebalanceWithoutNegativeRebalancingIterative (Fin (sum_list ms))
          (map (\<lambda>m. Fin (m / sum_list ms)) ms) (map Fin ts) (Fin d) = Some (map Fin adj)
           \<and> length adj = length ts \<and> sum_list adj = d \<and> (\<forall>x\<in>set adj. 0 \<le> x)"
  proof (cases "?r < 0")
    case True
    from balanced_loop [OF bal assms(4)] obtain xs' where
      loop: "map_option sumDivided (redistributionLoop
                  \<lparr>sumDivided = map Fin ?xs, reimainingToDistribute = Fin ?r,
                   indexesRedistribution = ?idx\<rparr>) = Some (map Fin xs')"
      and props: "\<forall>x\<in>set xs'. 0 \<le> x" "sum_list xs' = d" "length xs' = length ?xs"
      by blast
    have "rebalanceWithoutNegativeRebalancingIterative (Fin (sum_list ms))
          (map (\<lambda>m. Fin (m / sum_list ms)) ms) (map Fin ts) (Fin d) = Some (map Fin xs')"
      by (simp only: run True if_True loop)
    moreover have "length xs' = length ts" using props(3) by simp
    ultimately show ?thesis using props(1,2) by blast
  next
    case False
    with bal have "?r = 0" by (simp add: balanced_def)
    with bal have "sum_list ?xs = d" "\<forall>x\<in>set ?xs. 0 \<le> x" by (simp_all add: balanced_def)
    moreover have "length ?xs = length ts" by simp
    moreover have "rebalanceWithoutNegativeRebalancingIterative (Fin (sum_list ms))
          (map (\<lambda>m. Fin (m / sum_list ms)) ms) (map Fin ts) (Fin d) = Some (map Fin ?xs)"
      by (simp only: run False if_False)
    ultimately show ?thesis by blast
  qed
  then show ?thesis unfolding calculateAllocation_Fin [OF T] prod.case .
qed

text \<open>
  Claim C8, amended. On every valid input with a positive sum to add, both versions
  return a vector of the length of the input, with no negative entry, whose entries sum
  to \<open>sumToAdd\<close>; when no entry of \<open>diffInitial\<close> is negative the two vectors are equal.
\<close>

theorem variants_share_contract:
  assumes "length ms = length ts"
    and "\<forall>m\<in>set ms. 0 \<le> m" and "0 < sum_list ms"
    and "sum_list ts = 1" and "0 < d"
  shows "\<exists>a b. rebalanceWithoutNegativeRebalancing (map Fin ms) (map Fin ts) (Fin d)
               = Inr (map Fin a)
           \<and> (case calculateAllocation (map Fin ms) of
                (sumInitial, allocInitial) \<Rightarrow>
                  rebalanceWithoutNegativeRebalancingIterative sumInitial allocInitial
                    (map Fin ts) (Fin d)) = Some (map Fin b)
           \<and> length a = length ts \<and> length b = length ts
           \<and> sum_list a = d \<and> sum_list b = d
           \<and> (\<forall>x\<in>set a. 0 \<le> x) \<and> (\<forall>x\<in>set b. 0 \<le> x)
           \<and> ((\<forall>x\<in>set (diffInitial (map Fin ms) (map Fin ts) (Fin d)). \<not> x < Fin 0)
                \<longrightarrow> a = b)"
proof -
  have T: "sum_list ms \<noteq> 0" and d: "d \<noteq> 0" using assms(3,5) by simp_all
  from twopass_shares [OF assms(1) T assms(4) d] assms(5)
  obtain a where a:
    "rebalanceWithoutNegativeRebalancing (map Fin ms) (map Fin ts) (Fin d) = Inr (map Fin a)"
    "length a = length ts" "sum_list a = d" "\<forall>x\<in>set a. 0 \<le> x"
    by blast
  from iterative_shares [OF assms(1,3,4,5)]
  obtain b where b:
    "(case calculateAllocation (map Fin ms) of
        (sumInitial, allocInitial) \<Rightarrow>
          rebalanceWithoutNegativeRebalancingIterative sumInitial allocInitial
            (map Fin ts) (Fin d)) = Some (map Fin b)"
    "length b = length ts" "sum_list b = d" "\<forall>x\<in>set b. 0 \<le> x"
    by blast
  have "a = b"
    if "\<forall>x\<in>set (diffInitial (map Fin ms) (map Fin ts) (Fin d)). \<not> x < Fin 0"
  proof -
    from variants_agree [OF assms that]
    have "map Fin a = map Fin b" unfolding a(1) b(1) by auto
    moreover have "inj Fin" by (simp add: inj_def)
    ultimately show ?thesis by (simp add: inj_map_eq_map)
  qed
  with a b show ?thesis by blast
qed

theorem variants_share_contract_witness:
  "(\<exists>a b. rebalanceWithoutNegativeRebalancing (map Fin [2, 2, 6]) (map Fin [1/2, 3/10, 1/5])
            (Fin 10) = Inr (map Fin a)
         \<and> (case calculateAllocation (map Fin [2, 2, 6]) of
              (sumInitial, allocInitial) \<Rightarrow>
                rebalanceWithoutNegativeRebalancingIterative sumInitial allocInitial
                  (map Fin [1/2, 3/10, 1/5]) (Fin 10)) = Some (map Fin b)
         \<and> length a = 3 \<and> length b = 3 \<and> sum_list a = 10 \<and> sum_list b = 10
         \<and> (\<forall>x\<in>set a. 0 \<le> x) \<and> (\<forall>x\<in>set b. 0 \<le> x))
   \<and> (\<exists>a. rebalanceWithoutNegativeRebalancing (map Fin [2, 3, 5]) (map Fin [3/10, 3/10, 2/5])
            (Fin 10) = Inr (map Fin a)
         \<and> (case calculateAllocation (map Fin [2, 3, 5]) of
              (sumInitial, allocInitial) \<Rightarrow>
                rebalanceWithoutNegativeRebalancingIterative sumInitial allocInitial
                  (map Fin [3/10, 3/10, 2/5]) (Fin 10)) = Some (map Fin a))"
proof -
  have first: "\<exists>a b. rebalanceWithoutNegativeRebalancing (map Fin [2, 2, 6])
            (map Fin [1/2, 3/10, 1/5]) (Fin 10) = Inr (map Fin a)
         \<and> (case calculateAllocation (map Fin [2, 2, 6]) of
              (sumInitial, allocInitial) \<Rightarrow>
                rebalanceWithoutNegativeRebalancingIterative sumInitial allocInitial
                  (map Fin [1/2, 3/10, 1/5]) (Fin 10)) = Some (map Fin b)
         \<and> length a = 3 \<and> length b = 3 \<and> sum_list a = 10 \<and> sum_list b = 10
         \<and> (\<forall>x\<in>set a. 0 \<le> x) \<and> (\<forall>x\<in>set b. 0 \<le> x)"
    using variants_share_contract [of "[2, 2, 6]" "[1/2, 3/10, 1/5]" 10]
    by (simp add: numeral_3_eq_3) blast
  have nn: "\<forall>x\<in>set (diffInitial (map Fin [2, 3, 5]) (map Fin [3/10, 3/10, 2/5]) (Fin 10)).
              \<not> x < Fin 0"
    by (simp add: diffInitial_def calculateAllocation_def kahanSum_def map_index_def
          elem_at_def Let_def upt_rec)
  have "\<exists>a b. rebalanceWithoutNegativeRebalancing (map Fin [2, 3, 5])
            (map Fin [3/10, 3/10, 2/5]) (Fin 10) = Inr (map Fin a)
         \<and> (case calculateAllocation (map Fin [2, 3, 5]) of
              (sumInitial, allocInitial) \<Rightarrow>
                rebalanceWithoutNegativeRebalancingIterative sumInitial allocInitial
                  (map Fin [3/10, 3/10, 2/5]) (Fin 10)) = Some (map Fin b)
         \<and> a = b"
    using variants_share_contract [of "[2, 3, 5]" "[3/10, 3/10, 2/5]" 10] nn
    by simp blast
  then have second: "\<exists>a. rebalanceWithoutNegativeRebalancing (map Fin [2, 3, 5])
            (map Fin [3/10, 3/10, 2/5]) (Fin 10) = Inr (map Fin a)
         \<and> (case calculateAllocation (map Fin [2, 3, 5]) of
              (sumInitial, allocInitial) \<Rightarrow>
                rebalanceWithoutNegativeRebalancingIterative sumInitial allocInitial
                  (map Fin [3/10, 3/10, 2/5]) (Fin 10)) = Some (map Fin a)"
    by blast
  from first second show ?thesis by blast
qed

end
